theory Spec2Isabelle
  imports Complex_Main
begin

text \<open>
  The simulation and monitoring engine of the SYNAPSE dashboard: the ring store, the
  priority queue and the interval callback of the \<open>Dashboard\<close> component, in the variant
  that has \<open>clamp\<close>, \<open>CircularBuffer\<close> and \<open>PriorityQueue\<close>. Mutation is explicit state
  passing: one function from the state before a tick to the state after it. JavaScript
  numbers are modelled as real numbers, integer counters as naturals, clock values as
  integers. What the callback reads from outside (random draws, the clock) is an
  argument of the tick.
\<close>

section \<open>JavaScript arrays and integer remainder\<close>

text \<open>
  A JavaScript array whose slots may be empty is a list of optional values: \<open>None\<close> is
  what reading a hole or an index outside the array yields (\<open>undefined\<close>). Writing at an
  index at or past the end extends the array with holes. The remainder operator \<open>%\<close>
  takes the sign of the dividend; the only divisor it meets here is the buffer size 60.
\<close>

definition js_get :: "'a option list \<Rightarrow> int \<Rightarrow> 'a option" where
  "js_get xs k = (if 0 \<le> k \<and> k < int (length xs) then xs ! nat k else None)"

definition js_set :: "'a option list \<Rightarrow> nat \<Rightarrow> 'a \<Rightarrow> 'a option list" where
  "js_set xs k v =
     (if k < length xs then xs[k := Some v]
      else xs @ replicate (k - length xs) None @ [Some v])"

definition js_rem :: "int \<Rightarrow> int \<Rightarrow> int" where
  "js_rem a b = (if a < 0 then - ((- a) mod \<bar>b\<bar>) else a mod \<bar>b\<bar>)"

section \<open>Telemetry ring store: class CircularBuffer\<close>

text \<open>
  The fields \<open>size\<close>, \<open>buffer\<close>, \<open>length\<close> and \<open>index\<close> of the class; \<open>size\<close>,
  \<open>length\<close> and \<open>index\<close> carry the suffix \<open>_cb\<close>. The constructor allocates
  \<open>new Array(size)\<close>, an array of \<open>size\<close> holes.
\<close>

record 'a CircularBuffer =
  size_cb :: nat
  buffer :: "'a option list"
  length_cb :: nat
  index_cb :: nat

definition new_CircularBuffer :: "nat \<Rightarrow> 'a CircularBuffer" where
  "new_CircularBuffer n =
     \<lparr>size_cb = n, buffer = replicate n None, length_cb = 0, index_cb = 0\<rparr>"

definition push :: "'a CircularBuffer \<Rightarrow> 'a \<Rightarrow> 'a CircularBuffer" where
  "push cb v =
     \<lparr>size_cb = size_cb cb,
      buffer = js_set (buffer cb) (index_cb cb) v,
      length_cb = min (length_cb cb + 1) (size_cb cb),
      index_cb = (index_cb cb + 1) mod size_cb cb\<rparr>"

definition toArray :: "'a CircularBuffer \<Rightarrow> 'a option list" where
  "toArray cb =
     map (\<lambda>i. js_get (buffer cb)
                (js_rem (int (index_cb cb) - int (length_cb cb) + int i + int (size_cb cb))
                        (int (size_cb cb))))
         [0..<length_cb cb]"

text \<open>The dashboard's store: \<open>dataBufferRef = useRef(new CircularBuffer(60))\<close>.\<close>

definition dataBuffer_init :: "'a CircularBuffer" where
  "dataBuffer_init = new_CircularBuffer 60"

section \<open>Number rendering: \<open>toFixed\<close> and \<open>parseFloat\<close>\<close>

text \<open>
  JavaScript numbers are modelled as reals. \<open>x.toFixed(d)\<close> prints a minus sign when
  \<open>x < 0\<close> and then the integer \<open>n\<close> closest to \<open>\<bar>x\<bar> * 10^d\<close> (the larger one on a
  tie) with a decimal point before its last \<open>d\<close> digits. For a fixed \<open>d\<close> two renderings
  are the same string exactly when sign and \<open>n\<close> agree, so a rendering is the pair of
  both. \<open>parseFloat\<close> reads the number back.
\<close>

type_synonym fixed = "bool \<times> nat"

definition toFixed :: "nat \<Rightarrow> real \<Rightarrow> fixed" where
  "toFixed d x = (x < 0, nat \<lfloor>\<bar>x\<bar> * 10 ^ d + 1 / 2\<rfloor>)"

definition parseFloat :: "nat \<Rightarrow> fixed \<Rightarrow> real" where
  "parseFloat d f = (if fst f then - (real (snd f) / 10 ^ d) else real (snd f) / 10 ^ d)"

section \<open>Alerts: priority queue and \<open>addAlert\<close>\<close>

datatype severity = critical | warning | info

fun ALERT_PRIORITY :: "severity \<Rightarrow> int" where
  "ALERT_PRIORITY critical = 3"
| "ALERT_PRIORITY warning = 2"
| "ALERT_PRIORITY info = 1"

text \<open>
  The alert messages are template literals around \<open>toFixed\<close> renderings. Two of them
  are the same string exactly when they come from the same template with the same
  renderings, so a message is its template applied to the renderings:
  \<^item> \<open>TemperatureLow t d\<close>: "Temperature Low: t C (Dev: d%)",
  \<^item> \<open>TemperatureDeviation d\<close>: "Temperature Deviation: d% (Set: 165 C)",
  \<^item> \<open>PressureLoss p d\<close>: "Pressure Loss: p Bar (Dev: d%)",
  \<^item> \<open>HighVibration v\<close>: "High Vibration: v mm/s (Critical)",
  \<^item> \<open>VibrationWarning v\<close>: "Vibration Warning: v mm/s (Safe: <4 mm/s)".
\<close>

datatype message =
    TemperatureLow fixed fixed
  | TemperatureDeviation fixed
  | PressureLoss fixed fixed
  | HighVibration fixed
  | VibrationWarning fixed

text \<open>An alert \<open>{ msg, type, time }\<close>; \<open>time\<close> is \<open>Date.now()\<close>, in milliseconds.\<close>

record alert =
  msg :: message
  type :: severity
  time :: int

text \<open>
  \<open>Array.prototype.sort\<close> with a comparator is a stable sort: an element stays behind
  every earlier element that the comparator does not place strictly after it.
\<close>

fun insert_stable :: "('a \<Rightarrow> 'a \<Rightarrow> int) \<Rightarrow> 'a \<Rightarrow> 'a list \<Rightarrow> 'a list" where
  "insert_stable cmp x [] = [x]"
| "insert_stable cmp x (y # ys) =
     (if cmp y x > 0 then x # y # ys else y # insert_stable cmp x ys)"

definition js_sort :: "('a \<Rightarrow> 'a \<Rightarrow> int) \<Rightarrow> 'a list \<Rightarrow> 'a list" where
  "js_sort cmp xs = foldl (\<lambda>acc x. insert_stable cmp x acc) [] xs"

record 'a PriorityQueue =
  items :: "'a list"
  compare :: "'a \<Rightarrow> 'a \<Rightarrow> int"

definition new_PriorityQueue :: "('a \<Rightarrow> 'a \<Rightarrow> int) \<Rightarrow> 'a PriorityQueue" where
  "new_PriorityQueue cmp = \<lparr>items = [], compare = cmp\<rparr>"

definition enqueue :: "'a PriorityQueue \<Rightarrow> 'a \<Rightarrow> 'a PriorityQueue" where
  "enqueue q item = q\<lparr>items := js_sort (compare q) (items q @ [item])\<rparr>"

definition toArray_pq :: "'a PriorityQueue \<Rightarrow> 'a list" where
  "toArray_pq q = items q"

text \<open>The comparator given to \<open>alertQueueRef\<close>.\<close>

definition alert_compare :: "alert \<Rightarrow> alert \<Rightarrow> int" where
  "alert_compare a b =
     (let priorityDelta = ALERT_PRIORITY (type b) - ALERT_PRIORITY (type a)
      in if priorityDelta \<noteq> 0 then priorityDelta else time b - time a)"

text \<open>
  The alert manager's state: the exposed list \<open>alerts\<close> (React state) and the queue
  behind \<open>alertQueueRef\<close>. \<open>addAlert\<close> takes the value of \<open>Date.now()\<close> as \<open>now\<close>.
\<close>

record alert_state =
  alerts :: "alert list"
  alertQueue :: "alert PriorityQueue"

definition alert_state_init :: alert_state where
  "alert_state_init = \<lparr>alerts = [], alertQueue = new_PriorityQueue alert_compare\<rparr>"

definition addAlert :: "int \<Rightarrow> message \<Rightarrow> severity \<Rightarrow> alert_state \<Rightarrow> alert_state" where
  "addAlert now m t s =
     (case alerts s of
        prev0 # _ \<Rightarrow>
          if msg prev0 = m \<and> now - time prev0 < 5000 then s
          else (let queue = enqueue (alertQueue s) \<lparr>msg = m, type = t, time = now\<rparr>
                in \<lparr>alerts = take 10 (toArray_pq queue), alertQueue = queue\<rparr>)
      | [] \<Rightarrow>
          (let queue = enqueue (alertQueue s) \<lparr>msg = m, type = t, time = now\<rparr>
           in \<lparr>alerts = take 10 (toArray_pq queue), alertQueue = queue\<rparr>))"

text \<open>A sequence of offers \<open>(now, msg, type)\<close>, applied in order.\<close>

definition offer_all :: "(int \<times> message \<times> severity) list \<Rightarrow> alert_state \<Rightarrow> alert_state" where
  "offer_all offers s = foldl (\<lambda>s (now, m, t). addAlert now m t s) s offers"

section \<open>Simulation constants\<close>

datatype phase = IDLE | CLOSING | HEATING | PRESSING | COOLING | OPENING

text \<open>\<open>CYCLE_PHASES[p].duration\<close>, in ticks.\<close>

fun duration :: "phase \<Rightarrow> nat" where
  "duration IDLE = 5"
| "duration CLOSING = 3"
| "duration HEATING = 15"
| "duration PRESSING = 10"
| "duration COOLING = 8"
| "duration OPENING = 4"

definition TARGET_TEMP :: real where "TARGET_TEMP = 165"
definition TARGET_PRESSURE :: real where "TARGET_PRESSURE = 180"
definition TEMP_TOLERANCE :: real where "TEMP_TOLERANCE = 10"
definition PRESSURE_TOLERANCE :: real where "PRESSURE_TOLERANCE = 10"
definition TEMP_WARNING_THRESHOLD :: real where "TEMP_WARNING_THRESHOLD = TARGET_TEMP * 0.85"
definition VIBRATION_SAFE :: real where "VIBRATION_SAFE = 4"
definition VIBRATION_WARNING :: real where "VIBRATION_WARNING = 5"
definition VIBRATION_CRITICAL :: real where "VIBRATION_CRITICAL = 8"
definition BRAKE_PAD_TEMP_MIN :: real where "BRAKE_PAD_TEMP_MIN = 25"
definition BRAKE_PAD_TEMP_MAX :: real where "BRAKE_PAD_TEMP_MAX = 220"
definition BRAKE_PAD_PRESSURE_MIN :: real where "BRAKE_PAD_PRESSURE_MIN = 0"
definition BRAKE_PAD_PRESSURE_MAX :: real where "BRAKE_PAD_PRESSURE_MAX = 260"

lemmas constants =
  TARGET_TEMP_def TARGET_PRESSURE_def TEMP_TOLERANCE_def PRESSURE_TOLERANCE_def
  TEMP_WARNING_THRESHOLD_def VIBRATION_SAFE_def VIBRATION_WARNING_def
  VIBRATION_CRITICAL_def BRAKE_PAD_TEMP_MIN_def BRAKE_PAD_TEMP_MAX_def
  BRAKE_PAD_PRESSURE_MIN_def BRAKE_PAD_PRESSURE_MAX_def

text \<open>\<open>clamp = (value, min, max) => Math.min(max, Math.max(min, value))\<close>.\<close>

definition clamp :: "real \<Rightarrow> real \<Rightarrow> real \<Rightarrow> real" where
  "clamp v lo hi = min hi (max lo v)"

section \<open>The tick of the simulation loop\<close>

text \<open>
  Every call of \<open>Math.random()\<close> in the interval callback has its own draw, named after
  the place that consumes it; \<open>Math.random()\<close> yields a number in \<open>[0, 1)\<close>.
\<close>

record draws =
  r_cycle :: real
  r_tempNoise :: real
  r_pressureNoise :: real
  r_tempReject :: real
  r_leak :: real
  r_pressureReject :: real
  r_vibBase :: real
  r_vibCriticalGate :: real
  r_vibCritical :: real
  r_vibReject :: real
  r_vibWarningGate :: real
  r_vibWarning :: real
  r_health :: real

text \<open>
  What a tick reads from outside the dashboard's state: the random draws, the clock
  \<open>Date.now()\<close>, and the values of \<open>rejectCount\<close> and \<open>totalCycles\<close> that the callback's
  closure holds (the effect that installs the callback depends on \<open>isRunning\<close> only).
\<close>

record tick_env =
  rnd :: draws
  now :: int
  rejectCount_seen :: nat
  totalCycles_seen :: nat

text \<open>
  A telemetry sample \<open>newDataPoint\<close>. Its field \<open>time\<close>, the clock time of \<open>timestamp\<close>
  as text, is left out.
\<close>

record sample =
  timestamp :: int
  temp :: real
  predictedTemp :: real
  pressure :: real
  vibration :: real
  state :: phase
  s_tempDeviation :: real
  s_pressureDeviation :: real
  vibrationStatus :: "severity option"

text \<open>
  The dashboard's state and refs. \<open>machineState\<close> stands for both the state variable and
  \<open>machineStateRef.current\<close>: an effect copies the state into the ref after each render,
  so within a tick every read of the ref sees the phase in which the tick started, and
  the next tick sees the phase set by this one. \<open>phaseTime\<close> likewise stands for
  \<open>phaseTimeRef.current\<close>.
\<close>

record machine =
  machineState :: phase
  phaseTime :: nat
  cycleTime :: int
  totalCycles :: nat
  lastCycleTime :: real
  rejectCount :: nat
  dataStream :: "sample option list"
  alertState :: alert_state
  tempDeviation :: real
  pressureDeviation :: real
  healthIndex :: real
  currentTemp :: real
  currentPressure :: real
  currentVibration :: real
  cycleStart :: int
  dataBuffer :: "sample CircularBuffer"

definition machine_init :: "int \<Rightarrow> machine" where
  "machine_init t0 =
     \<lparr>machineState = IDLE, phaseTime = 0, cycleTime = 0, totalCycles = 124,
      lastCycleTime = 45.2, rejectCount = 3, dataStream = [],
      alertState = alert_state_init, tempDeviation = 0, pressureDeviation = 0,
      healthIndex = 85, currentTemp = 25, currentPressure = 0, currentVibration = 0,
      cycleStart = t0, dataBuffer = dataBuffer_init\<rparr>"

subsection \<open>Phase state machine\<close>

fun next_phase :: "phase \<Rightarrow> phase" where
  "next_phase IDLE = CLOSING"
| "next_phase CLOSING = HEATING"
| "next_phase HEATING = PRESSING"
| "next_phase PRESSING = COOLING"
| "next_phase COOLING = OPENING"
| "next_phase OPENING = IDLE"

text \<open>\<open>Object.values(CYCLE_PHASES).reduce((acc, val) => acc + val.duration, 0)\<close>.\<close>

definition cycle_duration :: nat where
  "cycle_duration = foldl (\<lambda>acc val. acc + duration val) 0
                      [IDLE, CLOSING, HEATING, PRESSING, COOLING, OPENING]"

text \<open>\<open>Math.round\<close> rounds to the nearest integer, a tie upwards.\<close>

definition Math_round :: "real \<Rightarrow> int" where
  "Math_round x = \<lfloor>x + 1 / 2\<rfloor>"

subsection \<open>Process model\<close>

fun tempTargetByState :: "phase \<Rightarrow> real" where
  "tempTargetByState IDLE = 35"
| "tempTargetByState CLOSING = 90"
| "tempTargetByState HEATING = TARGET_TEMP"
| "tempTargetByState PRESSING = TARGET_TEMP"
| "tempTargetByState COOLING = 80"
| "tempTargetByState OPENING = 45"

definition predictedT :: "phase \<Rightarrow> real \<Rightarrow> real" where
  "predictedT ms T =
     (let dt = 1;
          targetTemp = tempTargetByState ms;
          thermalTau = (if ms = HEATING \<or> ms = PRESSING then 26 else 18);
          dT = (targetTemp - T) / thermalTau
      in clamp (T + dT * dt) BRAKE_PAD_TEMP_MIN BRAKE_PAD_TEMP_MAX)"

definition temp_step :: "phase \<Rightarrow> real \<Rightarrow> real \<Rightarrow> real" where
  "temp_step ms T r =
     (let tempNoise = (r - 0.5) * 0.8
      in clamp (predictedT ms T + tempNoise) BRAKE_PAD_TEMP_MIN BRAKE_PAD_TEMP_MAX)"

definition pressure_step :: "phase \<Rightarrow> real \<Rightarrow> real \<Rightarrow> real \<Rightarrow> real" where
  "pressure_step ms P r_lk r_noise =
     (let dt = 1;
          pressureNoise = (r_noise - 0.5) * 0.6;
          pumpFlow = (if ms = CLOSING \<or> ms = HEATING \<or> ms = PRESSING then 3.4 else 0);
          baseLeakFlow = 0.9 + r_lk * 0.2;
          pistonArea = 1.1;
          moldVelocity = (if ms = OPENING then 1.1 else 0.25);
          compliance = 0.18;
          reliefFlow = max 0 ((P - 235) * 0.05);
          dP = (pumpFlow - baseLeakFlow - reliefFlow - pistonArea * moldVelocity) / compliance;
          pressureStep = P + dP * dt
      in clamp (pressureStep + pressureNoise) BRAKE_PAD_PRESSURE_MIN BRAKE_PAD_PRESSURE_MAX)"

subsection \<open>Deviations and the alerts they raise\<close>

text \<open>
  The local \<open>tempDev\<close> of a tick that started in phase \<open>ms\<close> and brought the temperature
  to \<open>T\<close>; the alerts the temperature block offers, as \<open>(msg, type)\<close>; and what it adds
  to \<open>rejectCount\<close>.
\<close>

definition tempDev_of :: "phase \<Rightarrow> real \<Rightarrow> real" where
  "tempDev_of ms T =
     (if ms = HEATING \<or> ms = PRESSING then ((T - TARGET_TEMP) / TARGET_TEMP) * 100 else 0)"

definition temp_offers :: "phase \<Rightarrow> real \<Rightarrow> (message \<times> severity) list" where
  "temp_offers ms T =
     (if ms = HEATING \<or> ms = PRESSING then
        (let tempDev = ((T - TARGET_TEMP) / TARGET_TEMP) * 100
         in if \<bar>tempDev\<bar> > TEMP_TOLERANCE then
              (if T < TEMP_WARNING_THRESHOLD
               then [(TemperatureLow (toFixed 1 T) (toFixed 1 tempDev), critical)]
               else [(TemperatureDeviation (toFixed 1 tempDev), warning)])
            else [])
      else [])"

definition temp_rejects :: "phase \<Rightarrow> real \<Rightarrow> real \<Rightarrow> nat" where
  "temp_rejects ms T r =
     (if ms = HEATING \<or> ms = PRESSING then
        (let tempDev = ((T - TARGET_TEMP) / TARGET_TEMP) * 100
         in if \<bar>tempDev\<bar> > TEMP_TOLERANCE \<and> T < TEMP_WARNING_THRESHOLD
            then (if r > 0.8 then 1 else 0) else 0)
      else 0)"

text \<open>The same for the pressure block, for the pressure \<open>P\<close> reached in the tick.\<close>

definition pressureDev_of :: "phase \<Rightarrow> real \<Rightarrow> real" where
  "pressureDev_of ms P =
     (if ms = PRESSING then ((P - TARGET_PRESSURE) / TARGET_PRESSURE) * 100 else 0)"

definition pressure_offers :: "phase \<Rightarrow> real \<Rightarrow> (message \<times> severity) list" where
  "pressure_offers ms P =
     (if ms = PRESSING then
        (let pressureDev = ((P - TARGET_PRESSURE) / TARGET_PRESSURE) * 100
         in if \<bar>pressureDev\<bar> > PRESSURE_TOLERANCE \<and> P < TARGET_PRESSURE * 0.9
            then [(PressureLoss (toFixed 1 P) (toFixed 1 pressureDev), critical)]
            else [])
      else [])"

definition pressure_rejects :: "phase \<Rightarrow> real \<Rightarrow> real \<Rightarrow> nat" where
  "pressure_rejects ms P r =
     (if ms = PRESSING then
        (let pressureDev = ((P - TARGET_PRESSURE) / TARGET_PRESSURE) * 100
         in if \<bar>pressureDev\<bar> > PRESSURE_TOLERANCE \<and> P < TARGET_PRESSURE * 0.9
            then (if r > 0.7 then 1 else 0) else 0)
      else 0)"

subsection \<open>Vibration\<close>

definition vibration_of :: "phase \<Rightarrow> draws \<Rightarrow> real" where
  "vibration_of ms r =
     (if ms = PRESSING then
        (if r_vibCriticalGate r > 0.92 then 6 + r_vibCritical r * 4
         else if r_vibWarningGate r > 0.88 then 4.5 + r_vibWarning r * 1
         else 2 + r_vibBase r * 2)
      else 2 + r_vibBase r * 2)"

definition vibrationAlert_of :: "phase \<Rightarrow> draws \<Rightarrow> severity option" where
  "vibrationAlert_of ms r =
     (if ms = PRESSING then
        (if r_vibCriticalGate r > 0.92 then Some critical
         else if r_vibWarningGate r > 0.88 then Some warning
         else None)
      else None)"

definition vibration_offers :: "phase \<Rightarrow> draws \<Rightarrow> (message \<times> severity) list" where
  "vibration_offers ms r =
     (if ms = PRESSING then
        (if r_vibCriticalGate r > 0.92
         then [(HighVibration (toFixed 2 (6 + r_vibCritical r * 4)), critical)]
         else if r_vibWarningGate r > 0.88
         then [(VibrationWarning (toFixed 2 (4.5 + r_vibWarning r * 1)), warning)]
         else [])
      else [])"

definition vibration_rejects :: "phase \<Rightarrow> draws \<Rightarrow> nat" where
  "vibration_rejects ms r =
     (if ms = PRESSING \<and> r_vibCriticalGate r > 0.92
      then (if r_vibReject r > 0.6 then 1 else 0) else 0)"

subsection \<open>Health index and OEE\<close>

text \<open>
  The updater given to \<open>setHealthIndex\<close>; \<open>r\<close> is its random draw. The previous health
  index is not used.
\<close>

definition health_update :: "real \<Rightarrow> real \<Rightarrow> nat \<Rightarrow> nat \<Rightarrow> real \<Rightarrow> real \<Rightarrow> real" where
  "health_update tempDev pressureDev rejects cycles vib r =
     (let tempDevPenalty = min (\<bar>tempDev\<bar> * 2) 100;
          pressureDevPenalty = min (\<bar>pressureDev\<bar> * 2) 100;
          rejectRate = (if rejects > 0 then real rejects / max 1 (real cycles) else 0);
          rejectPenalty = min (rejectRate * 150) 100;
          vibrationPenalty =
            (if vib > VIBRATION_CRITICAL then 80
             else if vib > VIBRATION_WARNING then 40
             else if vib > VIBRATION_SAFE then 20
             else 5);
          health = 100 - (0.4 * tempDevPenalty + 0.3 * pressureDevPenalty
                          + 0.2 * rejectPenalty + 0.1 * vibrationPenalty);
          fluctuation = (r - 0.5) * 1;
          finalHealth = health + fluctuation
      in max 5 (min 100 finalHealth))"

text \<open>
  The OEE shown in the "Production Efficiency" card, computed at render time from the
  state: the number before rendering, and the text \<open>toFixed(1)\<close> makes of it.
\<close>

definition oee_value :: "nat \<Rightarrow> nat \<Rightarrow> real \<Rightarrow> real \<Rightarrow> bool \<Rightarrow> real" where
  "oee_value rejects cycles tDev pDev isRunning =
     (let qualityFactor = max 0.55 (1 - real rejects / max 1 (real cycles));
          performanceFactor = max 0.6 (0.95 - \<bar>tDev\<bar> / 100 * 0.1 - \<bar>pDev\<bar> / 100 * 0.1);
          availabilityFactor = (if isRunning then 0.98 else 0.7);
          oee = (availabilityFactor * performanceFactor * qualityFactor) * 100
      in max 50 (min 100 oee))"

definition oee_text :: "nat \<Rightarrow> nat \<Rightarrow> real \<Rightarrow> real \<Rightarrow> bool \<Rightarrow> fixed" where
  "oee_text rejects cycles tDev pDev isRunning =
     toFixed 1 (oee_value rejects cycles tDev pDev isRunning)"

definition oee_of :: "machine \<Rightarrow> bool \<Rightarrow> fixed" where
  "oee_of s isRunning =
     oee_text (rejectCount s) (totalCycles s) (tempDeviation s) (pressureDeviation s) isRunning"

subsection \<open>The interval callback\<close>

text \<open>
  The alerts offered during a tick, in the order of the calls of \<open>addAlert\<close>. All of them
  are stamped with the tick's clock value.
\<close>

definition tick_offers :: "tick_env \<Rightarrow> machine \<Rightarrow> (message \<times> severity) list" where
  "tick_offers e s =
     (let ms = machineState s;
          T = temp_step ms (currentTemp s) (r_tempNoise (rnd e));
          P = pressure_step ms (currentPressure s) (r_leak (rnd e)) (r_pressureNoise (rnd e))
      in temp_offers ms T @ pressure_offers ms P @ vibration_offers ms (rnd e))"

text \<open>The sample \<open>newDataPoint\<close> that a tick builds and pushes into the ring store.\<close>

definition newDataPoint :: "tick_env \<Rightarrow> machine \<Rightarrow> sample" where
  "newDataPoint e s =
     (let ms = machineState s;
          r = rnd e;
          predicted = predictedT ms (currentTemp s);
          T = temp_step ms (currentTemp s) (r_tempNoise r);
          tempDev = tempDev_of ms T;
          P = pressure_step ms (currentPressure s) (r_leak r) (r_pressureNoise r);
          pressureDev = pressureDev_of ms P;
          vib = vibration_of ms r
      in \<lparr>timestamp = now e,
          temp = parseFloat 1 (toFixed 1 T),
          predictedTemp = parseFloat 1 (toFixed 1 predicted),
          pressure = parseFloat 1 (toFixed 1 P),
          vibration = parseFloat 1 (toFixed 1 vib),
          state = ms,
          s_tempDeviation = parseFloat 1 (toFixed 1 tempDev),
          s_pressureDeviation = parseFloat 1 (toFixed 1 pressureDev),
          vibrationStatus = vibrationAlert_of ms r\<rparr>)"

definition tick :: "tick_env \<Rightarrow> machine \<Rightarrow> machine" where
  "tick e s =
     (let ms = machineState s;
          r = rnd e;
          elapsed = phaseTime s + 1;
          wrap = (elapsed \<ge> duration ms);
          completed = (wrap \<and> ms = OPENING);
          T = temp_step ms (currentTemp s) (r_tempNoise r);
          tempDev = tempDev_of ms T;
          P = pressure_step ms (currentPressure s) (r_leak r) (r_pressureNoise r);
          pressureDev = pressureDev_of ms P;
          vib = vibration_of ms r;
          buffer = push (dataBuffer s) (newDataPoint e s)
      in \<lparr>machineState = (if wrap then next_phase ms else ms),
          phaseTime = (if wrap then 0 else elapsed),
          cycleTime =
            (if completed then max 1 (Math_round (real_of_int (now e - cycleStart s) / 1000))
             else cycleTime s),
          totalCycles = (if completed then totalCycles s + 1 else totalCycles s),
          lastCycleTime =
            (if completed then real cycle_duration + (r_cycle r * 2 - 1) else lastCycleTime s),
          rejectCount =
            rejectCount s + temp_rejects ms T (r_tempReject r)
              + pressure_rejects ms P (r_pressureReject r) + vibration_rejects ms r,
          dataStream = toArray buffer,
          alertState =
            offer_all (map (\<lambda>(m, t). (now e, m, t)) (tick_offers e s)) (alertState s),
          tempDeviation = (if ms = HEATING \<or> ms = PRESSING then tempDev else tempDeviation s),
          pressureDeviation = (if ms = PRESSING then pressureDev else pressureDeviation s),
          healthIndex =
            health_update tempDev pressureDev (rejectCount_seen e) (totalCycles_seen e) vib
              (r_health r),
          currentTemp = T,
          currentPressure = P,
          currentVibration = vib,
          cycleStart = (if completed then now e else cycleStart s),
          dataBuffer = buffer\<rparr>)"

text \<open>Ticks in sequence, one environment per tick.\<close>

definition run :: "tick_env list \<Rightarrow> machine \<Rightarrow> machine" where
  "run es s = foldl (\<lambda>s e. tick e s) s es"

text \<open>The samples that these ticks build, one per tick, in tick order.\<close>

fun samples_of :: "tick_env list \<Rightarrow> machine \<Rightarrow> sample list" where
  "samples_of [] s = []"
| "samples_of (e # es) s = newDataPoint e s # samples_of es (tick e s)"

text \<open>
  The effect that installs the interval callback runs when the dashboard mounts and
  when \<open>isRunning\<close> changes, and on nothing else. The callback it installs in state
  \<open>s0\<close> closes over the \<open>rejectCount\<close> and \<open>totalCycles\<close> of that render, so every tick
  of that callback sees those two values, whatever the state's counters have become.
  \<open>run_installed s0 ins\<close> runs the callback installed in \<open>s0\<close> on the draws and clock
  values \<open>ins\<close>.
\<close>

definition install :: "machine \<Rightarrow> draws \<Rightarrow> int \<Rightarrow> tick_env" where
  "install s0 r t =
     \<lparr>rnd = r, now = t, rejectCount_seen = rejectCount s0, totalCycles_seen = totalCycles s0\<rparr>"

definition run_installed :: "machine \<Rightarrow> (draws \<times> int) list \<Rightarrow> machine" where
  "run_installed s0 ins = run (map (\<lambda>(r, t). install s0 r t) ins) s0"


section \<open>Sample inputs\<close>

text \<open>Every random draw at the middle of its range, so that every noise term is zero.\<close>

definition draws_mid :: draws where
  "draws_mid =
     \<lparr>r_cycle = 1/2, r_tempNoise = 1/2, r_pressureNoise = 1/2, r_tempReject = 1/2,
      r_leak = 1/2, r_pressureReject = 1/2, r_vibBase = 1/2, r_vibCriticalGate = 1/2,
      r_vibCritical = 1/2, r_vibReject = 1/2, r_vibWarningGate = 1/2, r_vibWarning = 1/2,
      r_health = 1/2\<rparr>"

text \<open>
  A tick at clock value 1000 whose closure holds the initial counters
  (\<open>rejectCount = 3\<close>, \<open>totalCycles = 124\<close>).
\<close>

definition env_mid :: tick_env where
  "env_mid = \<lparr>rnd = draws_mid, now = 1000, rejectCount_seen = 3, totalCycles_seen = 124\<rparr>"


definition state_pressing_high :: machine where
  "state_pressing_high = (machine_init 0)\<lparr>machineState := PRESSING, currentPressure := 250\<rparr>"


text \<open>
  Ten ticks of the callback installed at mount, one second apart: every draw at 0.5,
  but the reject draw of the temperature block at 0.9 in the first nine.
\<close>

definition draws_reject :: draws where
  "draws_reject = draws_mid\<lparr>r_tempReject := 0.9\<rparr>"

definition inputs_before_heating :: "(draws \<times> int) list" where
  "inputs_before_heating = map (\<lambda>k. (draws_reject, 1000 * int k)) [1..<9]"

definition inputs_stale :: "(draws \<times> int) list" where
  "inputs_stale = inputs_before_heating @ [(draws_reject, 9000), (draws_mid, 10000)]"


section \<open>Invariants and the specification's formulas\<close>

subsection \<open>Ring store\<close>

text \<open>
  After the samples \<open>xs\<close> have been pushed in order into a buffer of capacity \<open>N > 0\<close>,
  slot \<open>k mod N\<close> holds sample \<open>k\<close> for each of the last \<open>min (length xs) N\<close> samples.
\<close>

definition ring_inv :: "nat \<Rightarrow> 'a list \<Rightarrow> 'a CircularBuffer \<Rightarrow> bool" where
  "ring_inv N xs cb \<longleftrightarrow>
     size_cb cb = N \<and> length (buffer cb) = N \<and>
     index_cb cb = length xs mod N \<and>
     length_cb cb = min (length xs) N \<and>
     (\<forall>k. length xs - N \<le> k \<and> k < length xs \<longrightarrow> buffer cb ! (k mod N) = Some (xs ! k))"

subsection \<open>Alert order\<close>

text \<open>
  The order of the alert list in the specification's words: severity descending
  (critical, then warning, then info), ties broken by timestamp, most recent first.
\<close>

definition alert_before :: "alert \<Rightarrow> alert \<Rightarrow> bool" where
  "alert_before a b \<longleftrightarrow>
     ALERT_PRIORITY (type a) > ALERT_PRIORITY (type b)
     \<or> (type a = type b \<and> time a \<ge> time b)"

definition alerts_ok :: "alert_state \<Rightarrow> bool" where
  "alerts_ok s \<longleftrightarrow>
     compare (alertQueue s) = alert_compare \<and> length (alerts s) \<le> 10 \<and>
     sorted_wrt alert_before (alerts s)"

subsection \<open>Phase schedule\<close>

text \<open>
  The phase and the phase-elapsed time that the specification gives for the state \<open>k\<close>
  ticks after an IDLE phase began: the phases in their cyclic order, lasting 5, 3, 15,
  10, 8 and 4 ticks.
\<close>

definition spec_schedule :: "nat \<Rightarrow> phase \<times> nat" where
  "spec_schedule k =
     (if k < 5 then (IDLE, k)
      else if k < 5 + 3 then (CLOSING, k - 5)
      else if k < 5 + 3 + 15 then (HEATING, k - (5 + 3))
      else if k < 5 + 3 + 15 + 10 then (PRESSING, k - (5 + 3 + 15))
      else if k < 5 + 3 + 15 + 10 + 8 then (COOLING, k - (5 + 3 + 15 + 10))
      else if k < 5 + 3 + 15 + 10 + 8 + 4 then (OPENING, k - (5 + 3 + 15 + 10 + 8))
      else (IDLE, k - (5 + 3 + 15 + 10 + 8 + 4)))"

subsection \<open>Health index and OEE as the specification writes them\<close>

text \<open>
  The vibration penalty is 5 at or below the safe threshold, 20 above safe, 40 above
  warning and 80 above critical. The health index is 100 minus the weighted penalties,
  plus the jitter, clamped to \<open>[5, 100]\<close>.
\<close>

definition spec_vibrationPenalty :: "real \<Rightarrow> real" where
  "spec_vibrationPenalty vib =
     (if vib \<le> VIBRATION_SAFE then 5
      else if vib \<le> VIBRATION_WARNING then 20
      else if vib \<le> VIBRATION_CRITICAL then 40
      else 80)"

definition spec_health :: "real \<Rightarrow> real \<Rightarrow> nat \<Rightarrow> nat \<Rightarrow> real \<Rightarrow> real \<Rightarrow> real" where
  "spec_health tempDev pressureDev rejects cycles vib jitter =
     max 5 (min 100
       (100 - (0.4 * min (\<bar>tempDev\<bar> * 2) 100
               + 0.3 * min (\<bar>pressureDev\<bar> * 2) 100
               + 0.2 * min ((real rejects / max 1 (real cycles)) * 150) 100
               + 0.1 * spec_vibrationPenalty vib)
        + jitter))"

definition spec_availability :: "bool \<Rightarrow> real" where
  "spec_availability running = (if running then 0.98 else 0.70)"

definition spec_performance :: "real \<Rightarrow> real \<Rightarrow> real" where
  "spec_performance tempDev pressureDev =
     max 0.60 (0.95 - \<bar>tempDev\<bar> / 1000 - \<bar>pressureDev\<bar> / 1000)"

definition spec_quality :: "nat \<Rightarrow> nat \<Rightarrow> real" where
  "spec_quality rejects cycles = max 0.55 (1 - real rejects / max 1 (real cycles))"

section \<open>What a tick writes\<close>

lemma tick_currentTemp:
  "currentTemp (tick e s) = temp_step (machineState s) (currentTemp s) (r_tempNoise (rnd e))"
  by (simp add: tick_def Let_def)

lemma tick_currentPressure:
  "currentPressure (tick e s) =
     pressure_step (machineState s) (currentPressure s) (r_leak (rnd e)) (r_pressureNoise (rnd e))"
  by (simp add: tick_def Let_def)

lemma run_snoc: "run (es @ [e]) s = tick e (run es s)"
  by (simp add: run_def)

lemma run_append: "run (es @ es') s = run es' (run es s)"
  by (simp add: run_def)

lemma run_Cons: "run (e # es) s = run es (tick e s)"
  by (simp add: run_def)

lemma tick_dataStream: "dataStream (tick e s) = toArray (dataBuffer (tick e s))"
  by (simp add: tick_def Let_def)

lemma length_samples_of: "length (samples_of es s) = length es"
  by (induction es arbitrary: s) simp_all

lemma run_dataBuffer: "dataBuffer (run es s) = foldl push (dataBuffer s) (samples_of es s)"
proof (induction es arbitrary: s)
  case Nil
  then show ?case by (simp add: run_def)
next
  case (Cons e es)
  then show ?case by (simp add: run_Cons tick_def Let_def)
qed

lemma run_dataStream:
  "dataStream (run es (machine_init t0)) = toArray (dataBuffer (run es (machine_init t0)))"
proof (cases es rule: rev_cases)
  case Nil
  then show ?thesis
    by (simp add: run_def machine_init_def dataBuffer_init_def new_CircularBuffer_def
          toArray_def)
next
  case (snoc es' e)
  then show ?thesis by (simp add: run_snoc tick_dataStream)
qed

lemma tick_offers_split:
  "tick_offers e s =
     temp_offers (machineState s) (currentTemp (tick e s))
     @ pressure_offers (machineState s) (currentPressure (tick e s))
     @ vibration_offers (machineState s) (rnd e)"
  by (simp add: tick_offers_def tick_currentTemp tick_currentPressure Let_def)

lemma tick_tempDeviation:
  "tempDeviation (tick e s) =
     (if machineState s = HEATING \<or> machineState s = PRESSING
      then tempDev_of (machineState s) (currentTemp (tick e s)) else tempDeviation s)"
  by (simp add: tick_def Let_def)


lemma tick_alertState:
  "alertState (tick e s) =
     offer_all (map (\<lambda>(m, t). (now e, m, t)) (tick_offers e s)) (alertState s)"
  by (simp add: tick_def Let_def)

lemma tick_rejectCount:
  "rejectCount (tick e s) =
     rejectCount s
     + temp_rejects (machineState s) (currentTemp (tick e s)) (r_tempReject (rnd e))
     + pressure_rejects (machineState s) (currentPressure (tick e s)) (r_pressureReject (rnd e))
     + vibration_rejects (machineState s) (rnd e)"
  by (simp add: tick_def Let_def)




lemma toFixed1_130: "toFixed 1 130 = (False, 1300)"
  by (simp add: toFixed_def)






lemma pressing_high_pressure: "currentPressure (tick env_mid state_pressing_high) = 9275 / 36"
  by (simp add: tick_currentPressure state_pressing_high_def machine_init_def env_mid_def
        draws_mid_def pressure_step_def clamp_def constants Let_def)



section \<open>Ring store: snapshot order\<close>

lemma mod_distinct_window:
  fixes k n N :: nat
  assumes "k < n" "n - k < N"
  shows "k mod N \<noteq> n mod N"
proof
  assume "k mod N = n mod N"
  then have "N dvd n - k"
    using assms(1) by (metis mod_eq_dvd_iff_nat less_imp_le_nat)
  then have "N \<le> n - k"
    using assms(1) by (simp add: dvd_imp_le)
  with assms(2) show False by simp
qed

lemma ring_index_mod:
  fixes n c i N :: int
  shows "(n mod N - c + i + N) mod N = (n - c + i) mod N"
proof -
  have "n mod N - c + i + N = (n mod N + (i - c)) + N"
    by simp
  then have "(n mod N - c + i + N) mod N = (n mod N + (i - c)) mod N"
    by (simp only: mod_add_self2)
  also have "\<dots> = (n + (i - c)) mod N"
    by (simp only: mod_add_left_eq)
  finally show ?thesis by (simp add: algebra_simps)
qed

lemma ring_inv_new: "0 < N \<Longrightarrow> ring_inv N [] (new_CircularBuffer N)"
  by (simp add: ring_inv_def new_CircularBuffer_def)

lemma ring_inv_push:
  assumes "0 < N" "ring_inv N xs cb"
  shows "ring_inv N (xs @ [x]) (push cb x)"
proof -
  let ?n = "length xs"
  from assms have sz: "size_cb cb = N" and len: "length (buffer cb) = N"
    and idx: "index_cb cb = ?n mod N" and cnt: "length_cb cb = min ?n N"
    and slots: "\<And>k. length xs - N \<le> k \<Longrightarrow> k < length xs \<Longrightarrow>
                  buffer cb ! (k mod N) = Some (xs ! k)"
    by (simp_all add: ring_inv_def)
  have in_range: "?n mod N < length (buffer cb)"
    using assms(1) len by simp
  have buf: "buffer (push cb x) = (buffer cb)[?n mod N := Some x]"
    using in_range by (simp add: push_def js_set_def idx)
  have "buffer (push cb x) ! (k mod N) = Some ((xs @ [x]) ! k)"
    if lo: "Suc ?n - N \<le> k" and hi: "k < Suc ?n" for k
  proof (cases "k = ?n")
    case True
    then show ?thesis using in_range by (simp add: buf)
  next
    case False
    with hi have kn: "k < ?n" by simp
    from lo kn have "?n - k < N" by arith
    with kn have "k mod N \<noteq> ?n mod N" by (rule mod_distinct_window)
    moreover from lo have "?n - N \<le> k" by arith
    ultimately show ?thesis
      using slots [of k] kn by (simp add: buf nth_append)
  qed
  moreover have "index_cb (push cb x) = Suc ?n mod N"
    by (simp add: push_def idx sz mod_Suc_eq)
  moreover have "length_cb (push cb x) = min (Suc ?n) N"
    by (simp add: push_def cnt sz)
  moreover have "size_cb (push cb x) = N"
    by (simp add: push_def sz)
  moreover have "length (buffer (push cb x)) = N"
    by (simp add: buf len)
  ultimately show ?thesis
    unfolding ring_inv_def by simp
qed

lemma ring_inv_foldl:
  "0 < N \<Longrightarrow> ring_inv N xs cb \<Longrightarrow> ring_inv N (xs @ ys) (foldl push cb ys)"
proof (induction ys arbitrary: xs cb)
  case Nil
  then show ?case by simp
next
  case (Cons y ys)
  from Cons.prems have "ring_inv N (xs @ [y]) (push cb y)"
    by (rule ring_inv_push)
  from Cons.IH [OF Cons.prems(1) this] show ?case by simp
qed

lemma ring_inv_toArray:
  assumes "0 < N" "ring_inv N xs cb"
  shows "toArray cb = map Some (drop (length xs - N) xs)"
proof (rule nth_equalityI)
  let ?n = "length xs"
  from assms have sz: "size_cb cb = N" and len: "length (buffer cb) = N"
    and idx: "index_cb cb = ?n mod N" and cnt: "length_cb cb = min ?n N"
    and slots: "\<And>k. length xs - N \<le> k \<Longrightarrow> k < length xs \<Longrightarrow>
                  buffer cb ! (k mod N) = Some (xs ! k)"
    by (simp_all add: ring_inv_def)
  show l: "length (toArray cb) = length (map Some (drop (?n - N) xs))"
    by (simp add: toArray_def cnt)
  fix i assume "i < length (toArray cb)"
  then have i: "i < min ?n N" by (simp add: toArray_def cnt)
  let ?k = "?n - N + i"
  have k: "?n - N \<le> ?k" "?k < ?n" using i by arith+
  let ?e = "int (?n mod N) - int (min ?n N) + int i + int N"
  have nonneg: "0 \<le> ?e" by simp
  have "?e mod int N = (int ?n - int (min ?n N) + int i) mod int N"
    by (simp only: zmod_int ring_index_mod)
  also have "int ?n - int (min ?n N) + int i = int ?k"
    by (simp add: min_def)
  finally have e: "?e mod int N = int (?k mod N)"
    by (simp add: zmod_int)
  have "js_rem ?e (int N) = int (?k mod N)"
    using nonneg e by (simp add: js_rem_def)
  moreover have "?k mod N < N" using assms(1) by simp
  ultimately have "toArray cb ! i = buffer cb ! (?k mod N)"
    using i by (simp add: toArray_def cnt idx sz js_get_def len)
  also have "\<dots> = Some (xs ! ?k)" using k by (rule slots)
  also have "\<dots> = map Some (drop (?n - N) xs) ! i"
  proof -
    have "i < length (drop (?n - N) xs)" using i by simp arith
    then show ?thesis using k by simp
  qed
  finally show "toArray cb ! i = map Some (drop (?n - N) xs) ! i" .
qed

text \<open>
  C2. However many samples \<open>xs\<close> have been pushed into the dashboard's 60-slot store,
  its snapshot is exactly the last \<open>min (length xs) 60\<close> of them, every slot defined, in
  the order in which they were pushed (oldest first); so it never holds more than 60
  samples, and once more than 60 have been pushed its first element is the sample
  pushed 60 pushes ago. The telemetry history that the dashboard exposes after any
  number of ticks is such a snapshot of the ticks' samples.
\<close>

theorem snapshot_chronological:
  "toArray (foldl push dataBuffer_init xs) = map Some (drop (length xs - 60) xs)
   \<and> length (toArray (foldl push dataBuffer_init xs)) = min (length xs) 60
   \<and> length (toArray (foldl push dataBuffer_init xs)) \<le> 60
   \<and> (61 \<le> length xs \<longrightarrow>
        hd (toArray (foldl push dataBuffer_init xs)) = Some (xs ! (length xs - 60)))
   \<and> dataStream (run es (machine_init t0)) =
        map Some (drop (length es - 60) (samples_of es (machine_init t0)))"
proof -
  have eq: "toArray (foldl push dataBuffer_init ys) = map Some (drop (length ys - 60) ys)"
    for ys :: "'b list"
  proof -
    have "ring_inv 60 ([] @ ys) (foldl push (new_CircularBuffer 60) ys)"
      by (rule ring_inv_foldl) (simp_all add: ring_inv_new)
    then show ?thesis
      using ring_inv_toArray [of 60 ys] by (simp add: dataBuffer_init_def)
  qed
  have oldest: "hd (toArray (foldl push dataBuffer_init xs)) = Some (xs ! (length xs - 60))"
    if "61 \<le> length xs"
  proof -
    from that have "length xs - 60 < length xs" by simp
    then show ?thesis
      unfolding eq by (simp add: hd_map hd_drop_conv_nth)
  qed
  have "dataBuffer (run es (machine_init t0))
          = foldl push dataBuffer_init (samples_of es (machine_init t0))"
    by (simp add: run_dataBuffer machine_init_def)
  then have history: "dataStream (run es (machine_init t0)) =
        map Some (drop (length es - 60) (samples_of es (machine_init t0)))"
    by (simp add: run_dataStream eq length_samples_of)
  from eq [of xs] oldest history show ?thesis
    by (simp add: min_def)
qed

theorem snapshot_chronological_witness:
  "hd (toArray (foldl push dataBuffer_init [0..<61])) = Some (1::nat)
   \<and> length (toArray (foldl push dataBuffer_init [0..<61 :: nat])) = 60"
proof -
  note th = snapshot_chronological [of "[0..<61::nat]" "[]" 0]
  have "hd (toArray (foldl push dataBuffer_init [0..<61]))
          = Some ([0..<61::nat] ! (length [0..<61::nat] - 60))"
    by (rule th [THEN conjunct2, THEN conjunct2, THEN conjunct2, THEN conjunct1, rule_format])
      simp
  moreover have "length (toArray (foldl push dataBuffer_init [0..<61 :: nat]))
                   = min (length [0..<61::nat]) 60"
    by (rule th [THEN conjunct2, THEN conjunct1])
  ultimately show ?thesis by simp
qed


section \<open>Clamp invariant of the process model\<close>

lemma clamp_bounds: "lo \<le> hi \<Longrightarrow> lo \<le> clamp v lo hi \<and> clamp v lo hi \<le> hi"
  by (simp add: clamp_def)

lemma temp_step_bounds: "25 \<le> temp_step ms T r \<and> temp_step ms T r \<le> 220"
  using clamp_bounds [of 25 220] by (simp add: temp_step_def Let_def constants)

lemma pressure_step_bounds: "0 \<le> pressure_step ms P a b \<and> pressure_step ms P a b \<le> 260"
  using clamp_bounds [of 0 260] by (simp add: pressure_step_def Let_def constants)

lemma run_bounds:
  "25 \<le> currentTemp (run es (machine_init t0)) \<and> currentTemp (run es (machine_init t0)) \<le> 220
   \<and> 0 \<le> currentPressure (run es (machine_init t0))
   \<and> currentPressure (run es (machine_init t0)) \<le> 260"
proof (cases es rule: rev_cases)
  case Nil
  then show ?thesis by (simp add: run_def machine_init_def)
next
  case (snoc es' e)
  then show ?thesis
    using temp_step_bounds pressure_step_bounds
    by (simp add: run_snoc tick_currentTemp tick_currentPressure)
qed

lemma parseFloat_toFixed1_between:
  fixes A B :: int
  assumes "0 \<le> A" "real_of_int A / 10 \<le> x" "x \<le> real_of_int B / 10"
  shows "real_of_int A / 10 \<le> parseFloat 1 (toFixed 1 x)
         \<and> parseFloat 1 (toFixed 1 x) \<le> real_of_int B / 10"
proof -
  let ?n = "\<lfloor>x * 10 + 1 / 2\<rfloor>"
  from assms have x0: "0 \<le> x" by simp
  have lo: "A \<le> ?n"
    using assms(2) by (simp add: le_floor_iff)
  have hi: "?n \<le> B"
    using assms(3) by (simp add: floor_le_iff)
  from lo assms(1) have "real (nat ?n) = real_of_int ?n" by simp
  moreover have "real_of_int A \<le> real_of_int ?n" "real_of_int ?n \<le> real_of_int B"
    using lo hi by simp_all
  moreover have "toFixed 1 x = (False, nat ?n)"
    using x0 by (simp add: toFixed_def)
  ultimately show ?thesis
    by (simp add: parseFloat_def)
qed

lemma sample_temp:
  "temp (newDataPoint e s) = parseFloat 1 (toFixed 1 (currentTemp (tick e s)))"
  by (simp add: newDataPoint_def tick_currentTemp Let_def)

lemma sample_pressure:
  "pressure (newDataPoint e s) = parseFloat 1 (toFixed 1 (currentPressure (tick e s)))"
  by (simp add: newDataPoint_def tick_currentPressure Let_def)

lemma sample_bounds:
  "25 \<le> temp (newDataPoint e s) \<and> temp (newDataPoint e s) \<le> 220
   \<and> 0 \<le> pressure (newDataPoint e s) \<and> pressure (newDataPoint e s) \<le> 260"
proof -
  have "real_of_int 250 / 10 \<le> temp (newDataPoint e s)
        \<and> temp (newDataPoint e s) \<le> real_of_int 2200 / 10"
    unfolding sample_temp
    using temp_step_bounds by (intro parseFloat_toFixed1_between) (simp_all add: tick_currentTemp)
  moreover have "real_of_int 0 / 10 \<le> pressure (newDataPoint e s)
        \<and> pressure (newDataPoint e s) \<le> real_of_int 2600 / 10"
    unfolding sample_pressure
    using pressure_step_bounds
    by (intro parseFloat_toFixed1_between) (simp_all add: tick_currentPressure)
  ultimately show ?thesis by simp
qed


text \<open>
  C1. After a tick from any state, whatever the random draws, the temperature lies in
  \<open>[25, 220]\<close> and the pressure in \<open>[0, 260]\<close>, and so do the one-decimal values
  recorded in the tick's sample; and so they do in every state reached from the
  initial state by any number of ticks.
\<close>

theorem temperature_pressure_clamped:
  "25 \<le> currentTemp (tick e s) \<and> currentTemp (tick e s) \<le> 220
   \<and> 0 \<le> currentPressure (tick e s) \<and> currentPressure (tick e s) \<le> 260
   \<and> 25 \<le> temp (newDataPoint e s) \<and> temp (newDataPoint e s) \<le> 220
   \<and> 0 \<le> pressure (newDataPoint e s) \<and> pressure (newDataPoint e s) \<le> 260
   \<and> 25 \<le> currentTemp (run es (machine_init t0))
   \<and> currentTemp (run es (machine_init t0)) \<le> 220
   \<and> 0 \<le> currentPressure (run es (machine_init t0))
   \<and> currentPressure (run es (machine_init t0)) \<le> 260"
  using temp_step_bounds pressure_step_bounds run_bounds sample_bounds
  by (simp add: tick_currentTemp tick_currentPressure)

section \<open>Phase cycle\<close>

lemma tick_machineState:
  "machineState (tick e s) =
     (if phaseTime s + 1 \<ge> duration (machineState s) then next_phase (machineState s)
      else machineState s)"
  by (simp add: tick_def Let_def)

lemma tick_phaseTime:
  "phaseTime (tick e s) =
     (if phaseTime s + 1 \<ge> duration (machineState s) then 0 else phaseTime s + 1)"
  by (simp add: tick_def Let_def)

lemma tick_totalCycles:
  "totalCycles (tick e s) =
     (if phaseTime s + 1 \<ge> duration (machineState s) \<and> machineState s = OPENING
      then totalCycles s + 1 else totalCycles s)"
  by (simp add: tick_def Let_def)

lemma cycle_duration_45: "cycle_duration = 45"
  by (simp add: cycle_duration_def)

lemma schedule_step:
  assumes "k < 45" "(ms, el) = spec_schedule k"
  shows "(if el + 1 \<ge> duration ms then next_phase ms else ms) = fst (spec_schedule (Suc k))"
    and "(if el + 1 \<ge> duration ms then 0 else el + 1) = snd (spec_schedule (Suc k))"
    and "(el + 1 \<ge> duration ms \<and> ms = OPENING) \<longleftrightarrow> Suc k = 45"
  using assms by (auto simp add: spec_schedule_def split: if_splits)

lemma run_follows_schedule:
  assumes "machineState s = IDLE" "phaseTime s = 0"
  shows "length es \<le> 45 \<Longrightarrow>
         machineState (run es s) = fst (spec_schedule (length es))
         \<and> phaseTime (run es s) = snd (spec_schedule (length es))
         \<and> totalCycles (run es s) = totalCycles s + (if length es = 45 then 1 else 0)"
proof (induction es rule: rev_induct)
  case Nil
  then show ?case using assms by (simp add: run_def spec_schedule_def)
next
  case (snoc e es)
  then have k: "length es < 45" by simp
  with snoc have ih:
    "machineState (run es s) = fst (spec_schedule (length es))"
    "phaseTime (run es s) = snd (spec_schedule (length es))"
    "totalCycles (run es s) = totalCycles s"
    by simp_all
  have eq: "(machineState (run es s), phaseTime (run es s)) = spec_schedule (length es)"
    by (simp add: ih)
  show ?case
    using schedule_step [OF k eq]
    by (simp add: run_snoc tick_machineState tick_phaseTime tick_totalCycles ih(3))
qed

text \<open>
  C3. From a state in IDLE with phase-elapsed 0, the state after \<open>k \<le> 45\<close> ticks is in
  the phase, and at the phase-elapsed time, of the fixed schedule IDLE 5, CLOSING 3,
  HEATING 15, PRESSING 10, COOLING 8, OPENING 4, whatever the ticks' inputs; the cycle
  count is unchanged before the 45th tick and one higher after it, when the phase is
  IDLE again with phase-elapsed 0. 45 is the sum of the six durations. In any state a
  tick that brings phase-elapsed to the phase's duration resets it to 0 and moves to
  the next phase of the cycle, and any other tick keeps the phase.
\<close>

theorem phase_cycle:
  assumes "machineState s = IDLE" and "phaseTime s = 0" and "length es \<le> 45"
  shows "machineState (run es s) = fst (spec_schedule (length es))
         \<and> phaseTime (run es s) = snd (spec_schedule (length es))
         \<and> totalCycles (run es s) = totalCycles s + (if length es = 45 then 1 else 0)
         \<and> (length es = 45 \<longrightarrow>
              machineState (run es s) = IDLE \<and> phaseTime (run es s) = 0
              \<and> totalCycles (run es s) = totalCycles s + 1)
         \<and> cycle_duration = 45
         \<and> machineState (tick e s') =
             (if phaseTime s' + 1 \<ge> duration (machineState s') then next_phase (machineState s')
              else machineState s')
         \<and> phaseTime (tick e s') =
             (if phaseTime s' + 1 \<ge> duration (machineState s') then 0 else phaseTime s' + 1)"
  using run_follows_schedule [OF assms]
  by (simp add: tick_machineState tick_phaseTime cycle_duration_45 spec_schedule_def)

theorem phase_cycle_witness:
  "machineState (run (replicate 45 env_mid) (machine_init 0)) = IDLE
   \<and> phaseTime (run (replicate 45 env_mid) (machine_init 0)) = 0
   \<and> totalCycles (run (replicate 45 env_mid) (machine_init 0)) = 125
   \<and> machineState (run (replicate 23 env_mid) (machine_init 0)) = PRESSING
   \<and> totalCycles (run (replicate 44 env_mid) (machine_init 0)) = 124"
  using phase_cycle [of "machine_init 0" "replicate 45 env_mid"]
        phase_cycle [of "machine_init 0" "replicate 23 env_mid"]
        phase_cycle [of "machine_init 0" "replicate 44 env_mid"]
  by (simp add: machine_init_def spec_schedule_def)

section \<open>Alert list: bound and order\<close>

lemma ALERT_PRIORITY_inj: "ALERT_PRIORITY s = ALERT_PRIORITY t \<longleftrightarrow> s = t"
  by (cases s; cases t) simp_all

lemma alert_compare_le: "alert_compare a b \<le> 0 \<longleftrightarrow> alert_before a b"
proof (cases "type a = type b")
  case True
  then show ?thesis by (simp add: alert_compare_def alert_before_def)
next
  case False
  then have "ALERT_PRIORITY (type a) \<noteq> ALERT_PRIORITY (type b)"
    by (simp add: ALERT_PRIORITY_inj)
  with False show ?thesis
    by (auto simp add: alert_compare_def alert_before_def Let_def)
qed

lemma alert_before_total: "\<not> alert_before a b \<Longrightarrow> alert_before b a"
  by (auto simp add: alert_before_def ALERT_PRIORITY_inj not_less)

lemma alert_before_trans: "alert_before a b \<Longrightarrow> alert_before b c \<Longrightarrow> alert_before a c"
  by (auto simp add: alert_before_def)

lemma set_insert_stable: "set (insert_stable cmp x xs) = insert x (set xs)"
  by (induction xs) auto

lemma sorted_insert_stable:
  "sorted_wrt alert_before xs \<Longrightarrow> sorted_wrt alert_before (insert_stable alert_compare x xs)"
proof (induction xs)
  case Nil
  then show ?case by simp
next
  case (Cons y ys)
  show ?case
  proof (cases "alert_compare y x > 0")
    case True
    then have xy: "alert_before x y"
      using alert_compare_le [of y x] alert_before_total by auto
    then have "\<forall>z\<in>set ys. alert_before x z"
      using Cons.prems alert_before_trans by auto
    with xy True Cons.prems show ?thesis by simp
  next
    case False
    then have "alert_before y x"
      using alert_compare_le [of y x] by simp
    with False Cons show ?thesis
      by (simp add: set_insert_stable)
  qed
qed

lemma sorted_foldl_insert:
  "sorted_wrt alert_before acc \<Longrightarrow>
   sorted_wrt alert_before (foldl (\<lambda>acc x. insert_stable alert_compare x acc) acc xs)"
  by (induction xs arbitrary: acc) (simp_all add: sorted_insert_stable)

lemma sorted_js_sort: "sorted_wrt alert_before (js_sort alert_compare xs)"
  by (simp add: js_sort_def sorted_foldl_insert)

lemma sorted_wrt_take: "sorted_wrt P xs \<Longrightarrow> sorted_wrt P (take n xs)"
  by (metis append_take_drop_id sorted_wrt_append)

lemma alerts_ok_init: "alerts_ok alert_state_init"
  by (simp add: alerts_ok_def alert_state_init_def new_PriorityQueue_def)

lemma alerts_ok_addAlert: "alerts_ok s \<Longrightarrow> alerts_ok (addAlert clock m t s)"
  by (auto simp add: alerts_ok_def addAlert_def enqueue_def toArray_pq_def Let_def
        sorted_js_sort sorted_wrt_take split: list.splits)

lemma alerts_ok_offer_all: "alerts_ok s \<Longrightarrow> alerts_ok (offer_all offers s)"
  unfolding offer_all_def
  by (induction offers arbitrary: s) (auto simp add: alerts_ok_addAlert)

lemma alerts_ok_run: "alerts_ok (alertState (run es (machine_init t0)))"
proof (induction es rule: rev_induct)
  case Nil
  then show ?case by (simp add: run_def machine_init_def alerts_ok_init)
next
  case (snoc e es)
  then show ?case by (simp add: run_snoc tick_alertState alerts_ok_offer_all)
qed

text \<open>
  C4. Whatever alerts have been offered since the dashboard started, at whatever times,
  the exposed alert list has at most 10 entries and is ordered by severity descending,
  ties by timestamp with the most recent first; so it is after any number of ticks.
\<close>

theorem alerts_bounded_sorted:
  "length (alerts (offer_all offers alert_state_init)) \<le> 10
   \<and> sorted_wrt alert_before (alerts (offer_all offers alert_state_init))
   \<and> length (alerts (alertState (run es (machine_init t0)))) \<le> 10
   \<and> sorted_wrt alert_before (alerts (alertState (run es (machine_init t0))))"
  using alerts_ok_offer_all [OF alerts_ok_init, of offers] alerts_ok_run [of es t0]
  by (simp add: alerts_ok_def)

section \<open>Alert deduplication\<close>

lemmas alert_eval =
  offer_all_def addAlert_def alert_state_init_def new_PriorityQueue_def enqueue_def
  toArray_pq_def js_sort_def alert_compare_def Let_def toFixed_def

lemma length_insert_stable: "length (insert_stable cmp x xs) = Suc (length xs)"
  by (induction xs) simp_all

lemma length_foldl_insert:
  "length (foldl (\<lambda>acc x. insert_stable cmp x acc) acc xs) = length acc + length xs"
  by (induction xs arbitrary: acc) (simp_all add: length_insert_stable)

lemma length_js_sort: "length (js_sort cmp xs) = length xs"
  by (simp add: js_sort_def length_foldl_insert)

lemma addAlert_suppresses_iff:
  "addAlert clock m t s = s \<longleftrightarrow>
     (alerts s \<noteq> [] \<and> msg (hd (alerts s)) = m \<and> clock - time (hd (alerts s)) < 5000)"
proof -
  have grow: "length (items (enqueue (alertQueue s) a)) \<noteq> length (items (alertQueue s))" for a
    by (simp add: enqueue_def length_js_sort)
  have "\<lparr>alerts = take 10 (toArray_pq (enqueue (alertQueue s) a)),
         alertQueue = enqueue (alertQueue s) a\<rparr> \<noteq> s" for a
  proof
    assume "\<lparr>alerts = take 10 (toArray_pq (enqueue (alertQueue s) a)),
         alertQueue = enqueue (alertQueue s) a\<rparr> = s"
    then have "alertQueue s = enqueue (alertQueue s) a"
      by (metis alert_state.select_convs(2))
    with grow [of a] show False by simp
  qed
  then show ?thesis
    by (cases "alerts s") (auto simp add: addAlert_def Let_def)
qed

lemma addAlert_suppressed:
  "alerts s = a # rest \<Longrightarrow> msg a = m \<Longrightarrow> clock - time a < 5000 \<Longrightarrow> addAlert clock m t s = s"
  by (simp add: addAlert_def)

lemma addAlert_accepted:
  "alerts s = a # rest \<Longrightarrow> msg a \<noteq> m \<or> clock - time a \<ge> 5000 \<Longrightarrow>
   alertQueue (addAlert clock m t s) =
     enqueue (alertQueue s) \<lparr>msg = m, type = t, time = clock\<rparr>"
  by (auto simp add: addAlert_def Let_def)

lemma same_message_five_seconds_apart:
  "t1 + 5000 \<le> t2 \<Longrightarrow>
   alerts (offer_all [(t1, m, sev), (t2, m, sev)] alert_state_init)
     = [\<lparr>msg = m, type = sev, time = t2\<rparr>, \<lparr>msg = m, type = sev, time = t1\<rparr>]"
  by (simp add: alert_eval)

lemma same_message_within_five_seconds:
  "t2 < t1 + 5000 \<Longrightarrow>
   alerts (offer_all [(t1, m, sev), (t2, m, sev)] alert_state_init)
     = [\<lparr>msg = m, type = sev, time = t1\<rparr>]"
  by (simp add: alert_eval)


section \<open>Health index\<close>

lemma floor_ceiling_clamp:
  fixes x lo hi :: real
  assumes "lo \<le> hi"
  shows "lo \<le> max lo (min hi x) \<and> max lo (min hi x) \<le> hi"
  using assms by simp

lemma vibrationPenalty_spec:
  "(if vib > VIBRATION_CRITICAL then 80
    else if vib > VIBRATION_WARNING then 40
    else if vib > VIBRATION_SAFE then 20
    else (5::real)) = spec_vibrationPenalty vib"
  by (simp add: spec_vibrationPenalty_def constants)

lemma rejectRate_spec:
  "(if rejects > 0 then real rejects / max 1 (real cycles) else 0)
     = real rejects / max 1 (real cycles)"
  by simp

lemma fluctuation_spec: "(r - 0.5) * 1 = r - 1 / (2::real)"
  by simp

lemma health_update_spec:
  "health_update tempDev pressureDev rejects cycles vib r
     = spec_health tempDev pressureDev rejects cycles vib (r - 1 / 2)"
  unfolding health_update_def spec_health_def Let_def
    vibrationPenalty_spec rejectRate_spec fluctuation_spec ..

lemma spec_health_range:
  "5 \<le> spec_health a b c d v j \<and> spec_health a b c d v j \<le> 100"
  unfolding spec_health_def by (rule floor_ceiling_clamp) simp

lemma tick_healthIndex:
  "healthIndex (tick e s) =
     health_update (tempDev_of (machineState s) (currentTemp (tick e s)))
       (pressureDev_of (machineState s) (currentPressure (tick e s)))
       (rejectCount_seen e) (totalCycles_seen e) (currentVibration (tick e s))
       (r_health (rnd e))"
  by (simp add: tick_def Let_def)

text \<open>
  The health index set by a tick is the specification's formula: 100 minus 0.4, 0.3,
  0.2 and 0.1 times the temperature, pressure, reject and vibration penalties, plus
  the jitter, clamped to \<open>[5, 100]\<close>. The deviations and the vibration are the tick's
  own, the jitter is the tick's draw minus one half, and the result lies in
  \<open>[5, 100]\<close>. The reject and cycle counts are those the callback sees through its
  closure, not the state's: changing the state's counters does not change the result.
\<close>

lemma health_index_with_seen_counters:
  "healthIndex (tick e s) =
     spec_health (tempDev_of (machineState s) (currentTemp (tick e s)))
       (pressureDev_of (machineState s) (currentPressure (tick e s)))
       (rejectCount_seen e) (totalCycles_seen e) (currentVibration (tick e s))
       (r_health (rnd e) - 1 / 2)
   \<and> 5 \<le> healthIndex (tick e s) \<and> healthIndex (tick e s) \<le> 100"
proof -
  have eq: "healthIndex (tick e s) =
     spec_health (tempDev_of (machineState s) (currentTemp (tick e s)))
       (pressureDev_of (machineState s) (currentPressure (tick e s)))
       (rejectCount_seen e) (totalCycles_seen e) (currentVibration (tick e s))
       (r_health (rnd e) - 1 / 2)"
    by (simp only: tick_healthIndex health_update_spec)
  have "5 \<le> healthIndex (tick e s) \<and> healthIndex (tick e s) \<le> 100"
    unfolding eq by (rule spec_health_range)
  with eq show ?thesis by blast
qed

lemma health_index_ignores_state_counters:
  "healthIndex (tick e (s\<lparr>rejectCount := n, totalCycles := m\<rparr>)) = healthIndex (tick e s)"
  by (simp add: tick_def Let_def)

lemma temp_step_before_heating:
  assumes "ms = IDLE \<or> ms = CLOSING" "25 \<le> T" "T \<le> 90"
  shows "25 \<le> temp_step ms T (1 / 2) \<and> temp_step ms T (1 / 2) \<le> 90"
proof -
  define X where "X = T + (tempTargetByState ms - T) / 18"
  have "X \<le> 90"
    using assms by (auto simp add: X_def field_simps)
  then have "25 \<le> min 220 (max 25 X) \<and> min 220 (max 25 X) \<le> 90"
    by simp
  then show ?thesis
    using assms(1)
    by (auto simp add: temp_step_def predictedT_def clamp_def constants Let_def X_def)
qed

lemma temp_step_heating_cold:
  assumes "25 \<le> T" "T \<le> 90"
  shows "25 \<le> temp_step HEATING T (1 / 2) \<and> temp_step HEATING T (1 / 2) < 561 / 4"
proof -
  define X where "X = T + (165 - T) / 26"
  have "X < 561 / 4"
    using assms by (simp add: X_def field_simps)
  then have "25 \<le> min 220 (max 25 X) \<and> min 220 (max 25 X) < 561 / 4"
    by simp
  then show ?thesis
    by (simp add: temp_step_def predictedT_def clamp_def constants Let_def X_def)
qed

lemma temp_rejects_cold:
  assumes "T < 561 / 4" "r > 0.8"
  shows "temp_rejects HEATING T r = 1"
proof -
  have "(T - 165) / 165 * 100 < - 10" using assms(1) by simp
  then have "\<bar>(T - 165) / 165 * 100\<bar> > 10" by linarith
  then show ?thesis
    using assms by (simp add: temp_rejects_def constants Let_def)
qed

lemma no_rejects_outside_pressing:
  "ms \<noteq> PRESSING \<Longrightarrow> pressure_rejects ms P r = 0 \<and> vibration_rejects ms d = 0"
  by (simp add: pressure_rejects_def vibration_rejects_def)

lemma no_temp_rejects_before_heating:
  "ms = IDLE \<or> ms = CLOSING \<Longrightarrow> temp_rejects ms T r = 0"
  by (auto simp add: temp_rejects_def)

lemma schedule_before_heating:
  "k < 8 \<Longrightarrow> fst (spec_schedule k) = IDLE \<or> fst (spec_schedule k) = CLOSING"
  by (simp add: spec_schedule_def)

lemma run_before_heating:
  assumes "machineState s = IDLE" "phaseTime s = 0" "25 \<le> currentTemp s" "currentTemp s \<le> 90"
  shows "length es \<le> 8 \<Longrightarrow> \<forall>e\<in>set es. r_tempNoise (rnd e) = 1 / 2 \<Longrightarrow>
         25 \<le> currentTemp (run es s) \<and> currentTemp (run es s) \<le> 90
         \<and> rejectCount (run es s) = rejectCount s"
proof (induction es rule: rev_induct)
  case Nil
  then show ?case using assms by (simp add: run_def)
next
  case (snoc e es)
  let ?s = "run es s"
  from snoc.prems have k: "length es < 8" and noise: "r_tempNoise (rnd e) = 1 / 2" by simp_all
  from snoc have ih: "25 \<le> currentTemp ?s" "currentTemp ?s \<le> 90" "rejectCount ?s = rejectCount s"
    by simp_all
  have "machineState ?s = fst (spec_schedule (length es))"
    using run_follows_schedule [OF assms(1,2), of es] k by simp
  with schedule_before_heating [OF k]
  have ph: "machineState ?s = IDLE \<or> machineState ?s = CLOSING" by simp
  then have np: "machineState ?s \<noteq> PRESSING" by auto
  have T: "25 \<le> temp_step (machineState ?s) (currentTemp ?s) (1 / 2)
           \<and> temp_step (machineState ?s) (currentTemp ?s) (1 / 2) \<le> 90"
    using ph ih(1,2) by (rule temp_step_before_heating)
  have "rejectCount (tick e ?s) = rejectCount ?s"
    using no_rejects_outside_pressing [OF np] no_temp_rejects_before_heating [OF ph]
    by (simp add: tick_rejectCount)
  with T ih(3) show ?case
    by (simp add: run_snoc tick_currentTemp noise)
qed

lemma spec_health_stale_higher:
  "spec_health a 0 4 124 3 0 < spec_health a 0 3 124 3 0"
proof -
  define tp where "tp = min (\<bar>a\<bar> * 2) 100"
  have tp: "0 \<le> tp" "tp \<le> 100" by (simp_all add: tp_def)
  have v: "spec_vibrationPenalty 3 = 5" by (simp add: spec_vibrationPenalty_def constants)
  have "spec_health a 0 4 124 3 0 = max 5 (min 100 (100 - (0.4 * tp + 0.2 * (150 / 31) + 0.5)))"
    by (simp add: spec_health_def v tp_def)
  also have "\<dots> = 100 - (0.4 * tp + 0.2 * (150 / 31) + 0.5)"
    using tp by simp
  finally have four: "spec_health a 0 4 124 3 0 = 100 - (0.4 * tp + 0.2 * (150 / 31) + 0.5)" .
  have "spec_health a 0 3 124 3 0 = max 5 (min 100 (100 - (0.4 * tp + 0.2 * (225 / 62) + 0.5)))"
    by (simp add: spec_health_def v tp_def)
  also have "\<dots> = 100 - (0.4 * tp + 0.2 * (225 / 62) + 0.5)"
    using tp by simp
  finally have three: "spec_health a 0 3 124 3 0 = 100 - (0.4 * tp + 0.2 * (225 / 62) + 0.5)" .
  show ?thesis unfolding four three by simp
qed

lemma tick_currentVibration:
  "currentVibration (tick e s) = vibration_of (machineState s) (rnd e)"
  by (simp add: tick_def Let_def)

lemma temp_rejects_mid: "temp_rejects ms T (1 / 2) = 0"
  by (simp add: temp_rejects_def Let_def)

lemma run_installed_stale:
  "run_installed (machine_init 0) inputs_stale =
     tick (install (machine_init 0) draws_mid 10000)
       (tick (install (machine_init 0) draws_reject 9000)
          (run_installed (machine_init 0) inputs_before_heating))"
  by (simp add: run_installed_def inputs_stale_def run_append run_Cons) (simp add: run_def)

lemma before_heating_state:
  "machineState (run_installed (machine_init 0) inputs_before_heating) = HEATING"
  "phaseTime (run_installed (machine_init 0) inputs_before_heating) = 0"
  "totalCycles (run_installed (machine_init 0) inputs_before_heating) = 124"
  "rejectCount (run_installed (machine_init 0) inputs_before_heating) = 3"
  "25 \<le> currentTemp (run_installed (machine_init 0) inputs_before_heating)"
  "currentTemp (run_installed (machine_init 0) inputs_before_heating) \<le> 90"
proof -
  let ?es = "map (\<lambda>(r, t). install (machine_init 0) r t) inputs_before_heating"
  have len: "length ?es = 8" by (simp add: inputs_before_heating_def)
  have noise: "\<forall>e\<in>set ?es. r_tempNoise (rnd e) = 1 / 2"
    by (auto simp add: inputs_before_heating_def install_def draws_reject_def draws_mid_def)
  have init: "machineState (machine_init 0) = IDLE" "phaseTime (machine_init 0) = 0"
    "25 \<le> currentTemp (machine_init 0)" "currentTemp (machine_init 0) \<le> 90"
    by (simp_all add: machine_init_def)
  note sched = run_follows_schedule [OF init(1,2), of ?es]
  note temp = run_before_heating [OF init, of ?es]
  show "machineState (run_installed (machine_init 0) inputs_before_heating) = HEATING"
    "phaseTime (run_installed (machine_init 0) inputs_before_heating) = 0"
    "totalCycles (run_installed (machine_init 0) inputs_before_heating) = 124"
    using sched len by (simp_all add: run_installed_def spec_schedule_def machine_init_def)
  show "rejectCount (run_installed (machine_init 0) inputs_before_heating) = 3"
    "25 \<le> currentTemp (run_installed (machine_init 0) inputs_before_heating)"
    "currentTemp (run_installed (machine_init 0) inputs_before_heating) \<le> 90"
    using temp len noise by (simp_all add: run_installed_def machine_init_def)
qed


text \<open>
  C6. The health index is not computed from the engine's reject count. The dashboard
  is mounted (reject count 3, cycle count 124) and left running. Tick 9 is the first
  tick of HEATING; it raises a critical temperature alert and, with its reject draw at
  0.9, increments the reject count to 4. Tick 10 computes the health index with the
  reject rate 3/124 that the callback captured at mount; the specification's formula
  with the engine's counters, 4/124, gives a strictly lower value. Temperature
  deviation, pressure deviation 0, vibration 3 and jitter 0 are the same on both sides.
\<close>

theorem health_index_stale_counters:
  "rejectCount (run_installed (machine_init 0) inputs_stale) = 4
   \<and> totalCycles (run_installed (machine_init 0) inputs_stale) = 124
   \<and> currentVibration (run_installed (machine_init 0) inputs_stale) = 3
   \<and> healthIndex (run_installed (machine_init 0) inputs_stale) =
       spec_health (tempDeviation (run_installed (machine_init 0) inputs_stale)) 0 3 124 3 0
   \<and> spec_health (tempDeviation (run_installed (machine_init 0) inputs_stale)) 0
         (rejectCount (run_installed (machine_init 0) inputs_stale))
         (totalCycles (run_installed (machine_init 0) inputs_stale)) 3 0
       < healthIndex (run_installed (machine_init 0) inputs_stale)"
proof -
  let ?s8 = "run_installed (machine_init 0) inputs_before_heating"
  let ?e9 = "install (machine_init 0) draws_reject 9000"
  let ?e10 = "install (machine_init 0) draws_mid 10000"
  let ?s9 = "tick ?e9 ?s8"
  let ?s10 = "tick ?e10 ?s9"
  have s10: "run_installed (machine_init 0) inputs_stale = ?s10"
    by (rule run_installed_stale)
  have e9: "r_tempNoise (rnd ?e9) = 1 / 2" "r_tempReject (rnd ?e9) = 0.9"
    by (simp_all add: install_def draws_reject_def draws_mid_def)
  have e10: "r_tempReject (rnd ?e10) = 1 / 2" "r_health (rnd ?e10) = 1 / 2"
    "rejectCount_seen ?e10 = 3" "totalCycles_seen ?e10 = 124"
    by (simp_all add: install_def draws_mid_def machine_init_def)
  have T9: "currentTemp ?s9 < 561 / 4"
    using temp_step_heating_cold [OF before_heating_state(5,6)]
    by (simp add: tick_currentTemp before_heating_state(1) e9(1))
  have r9: "rejectCount ?s9 = 4"
    using temp_rejects_cold [OF T9, of "0.9"] no_rejects_outside_pressing [of HEATING]
    by (simp add: tick_rejectCount before_heating_state e9(2))
  have ph9: "machineState ?s9 = HEATING"
    by (simp add: tick_machineState before_heating_state)
  have c9: "totalCycles ?s9 = 124"
    by (simp add: tick_totalCycles before_heating_state)
  have r10: "rejectCount ?s10 = 4"
    using tick_rejectCount [of ?e10 ?s9] no_rejects_outside_pressing [of HEATING]
    by (simp add: ph9 r9 e10(1) temp_rejects_mid)
  have c10: "totalCycles ?s10 = 124"
    using tick_totalCycles [of ?e10 ?s9] by (simp add: ph9 c9)
  have vib: "vibration_of HEATING (rnd ?e10) = 3"
    by (simp add: vibration_of_def install_def draws_mid_def)
  have v10: "currentVibration ?s10 = 3"
    unfolding tick_currentVibration [of ?e10 ?s9] ph9 by (rule vib)
  have d10: "tempDeviation ?s10 = tempDev_of HEATING (currentTemp ?s10)"
    using tick_tempDeviation [of ?e10 ?s9] by (simp add: ph9)
  have "healthIndex ?s10 =
          spec_health (tempDev_of HEATING (currentTemp ?s10))
            (pressureDev_of HEATING (currentPressure ?s10)) 3 124 (currentVibration ?s10)
            (1 / 2 - 1 / 2)"
    using tick_healthIndex [of ?e10 ?s9]
    by (simp only: health_update_spec ph9 e10(2,3,4))
  then have h10: "healthIndex ?s10 = spec_health (tempDeviation ?s10) 0 3 124 3 0"
    by (simp add: d10 v10 pressureDev_of_def)
  show ?thesis
    unfolding s10 using r10 c10 v10 h10 spec_health_stale_higher [of "tempDeviation ?s10"]
    by simp
qed

section \<open>OEE\<close>

lemma per_mille: "x / 100 * 0.1 = x / (1000::real)"
  by simp

lemma decimals: "(0.70::real) = 0.7" "(0.60::real) = 0.6"
  by simp_all

lemma oee_value_spec:
  "oee_value rejects cycles tDev pDev running =
     max 50 (min 100 (spec_availability running * spec_performance tDev pDev
                       * spec_quality rejects cycles * 100))"
  unfolding oee_value_def spec_availability_def spec_performance_def spec_quality_def
    Let_def per_mille decimals ..

lemma oee_value_range: "50 \<le> oee_value r c t p b \<and> oee_value r c t p b \<le> 100"
  unfolding oee_value_def Let_def by (rule floor_ceiling_clamp) simp

text \<open>
  C7. The OEE is availability times performance times quality times 100, with the
  three factors as the specification gives them, clamped to \<open>[50, 100]\<close>; the number
  lies in \<open>[50, 100]\<close>, and so does the one-decimal text shown for any state.
\<close>

theorem oee_formula:
  "oee_value rejects cycles tDev pDev running =
     max 50 (min 100 (spec_availability running * spec_performance tDev pDev
                       * spec_quality rejects cycles * 100))
   \<and> oee_of s running =
       toFixed 1 (oee_value (rejectCount s) (totalCycles s) (tempDeviation s)
                    (pressureDeviation s) running)
   \<and> 50 \<le> oee_value rejects cycles tDev pDev running
   \<and> oee_value rejects cycles tDev pDev running \<le> 100
   \<and> 50 \<le> parseFloat 1 (oee_of s running) \<and> parseFloat 1 (oee_of s running) \<le> 100"
proof -
  have "real_of_int 500 / 10 \<le> parseFloat 1 (oee_of s running)
        \<and> parseFloat 1 (oee_of s running) \<le> real_of_int 1000 / 10"
    unfolding oee_of_def oee_text_def
    using oee_value_range by (intro parseFloat_toFixed1_between) simp_all
  then have "50 \<le> parseFloat 1 (oee_of s running) \<and> parseFloat 1 (oee_of s running) \<le> 100"
    by simp
  moreover have "oee_of s running =
       toFixed 1 (oee_value (rejectCount s) (totalCycles s) (tempDeviation s)
                    (pressureDeviation s) running)"
    by (simp add: oee_of_def oee_text_def)
  ultimately show ?thesis
    using oee_value_range oee_value_spec by blast
qed

section \<open>Temperature alerts\<close>







section \<open>Deviations outside the vulcanization phases\<close>















section \<open>Pressure alerts\<close>

lemma pressure_offers_iff:
  "pressure_offers ms P \<noteq> [] \<longleftrightarrow>
     ms = PRESSING \<and> \<bar>pressureDev_of ms P\<bar> > PRESSURE_TOLERANCE \<and> P < TARGET_PRESSURE * 0.9"
  by (simp add: pressure_offers_def pressureDev_of_def Let_def)

lemma pressure_offers_shape:
  "x \<in> set (pressure_offers ms P) \<Longrightarrow> \<exists>p d. x = (PressureLoss p d, critical)"
  by (auto simp add: pressure_offers_def Let_def split: if_splits)

lemma temp_offers_no_pressure: "(PressureLoss p d, t) \<notin> set (temp_offers ms T)"
  by (simp add: temp_offers_def Let_def)

lemma vibration_offers_no_pressure: "(PressureLoss p d, t) \<notin> set (vibration_offers ms r)"
  by (simp add: vibration_offers_def)

lemma pressure_alert_iff:
  "(\<exists>p d t. (PressureLoss p d, t) \<in> set (tick_offers e s)) \<longleftrightarrow>
     pressure_offers (machineState s) (currentPressure (tick e s)) \<noteq> []"
proof
  assume "\<exists>p d t. (PressureLoss p d, t) \<in> set (tick_offers e s)"
  then show "pressure_offers (machineState s) (currentPressure (tick e s)) \<noteq> []"
    by (auto simp add: tick_offers_split temp_offers_no_pressure vibration_offers_no_pressure)
next
  assume "pressure_offers (machineState s) (currentPressure (tick e s)) \<noteq> []"
  then obtain x where x: "x \<in> set (pressure_offers (machineState s) (currentPressure (tick e s)))"
    by (cases "pressure_offers (machineState s) (currentPressure (tick e s))") auto
  with pressure_offers_shape obtain p d where "x = (PressureLoss p d, critical)" by blast
  with x have "(PressureLoss p d, critical) \<in> set (tick_offers e s)"
    by (simp add: tick_offers_split)
  then show "\<exists>p d t. (PressureLoss p d, t) \<in> set (tick_offers e s)"
    by blast
qed

lemma pressure_rejects_high:
  "\<not> P < TARGET_PRESSURE * 0.9 \<Longrightarrow> pressure_rejects ms P r = 0"
  by (simp add: pressure_rejects_def Let_def)


text \<open>
  C10. In a PRESSING tick whose pressure deviation exceeds the tolerance while the
  pressure is at or above 90% of target, the pressure block offers nothing, no
  "Pressure Loss" alert of any severity is among the tick's offers, and the reject
  counter grows only by the temperature and vibration blocks' increments. A tick offers
  a "Pressure Loss" alert exactly when it starts in PRESSING, the deviation exceeds the
  tolerance and the pressure is below 90% of target.
\<close>

theorem pressure_alert_low_side_only:
  "(machineState s = PRESSING
      \<and> \<bar>pressureDev_of (machineState s) (currentPressure (tick e s))\<bar> > PRESSURE_TOLERANCE
      \<and> currentPressure (tick e s) \<ge> TARGET_PRESSURE * 0.9 \<longrightarrow>
        pressure_offers (machineState s) (currentPressure (tick e s)) = []
        \<and> (\<forall>p d t. (PressureLoss p d, t) \<notin> set (tick_offers e s))
        \<and> pressure_rejects (machineState s) (currentPressure (tick e s))
             (r_pressureReject (rnd e)) = 0
        \<and> rejectCount (tick e s) =
             rejectCount s
             + temp_rejects (machineState s) (currentTemp (tick e s)) (r_tempReject (rnd e))
             + vibration_rejects (machineState s) (rnd e))
   \<and> ((\<exists>p d t. (PressureLoss p d, t) \<in> set (tick_offers e s)) \<longleftrightarrow>
        machineState s = PRESSING
        \<and> \<bar>pressureDev_of (machineState s) (currentPressure (tick e s))\<bar> > PRESSURE_TOLERANCE
        \<and> currentPressure (tick e s) < TARGET_PRESSURE * 0.9)"
proof -
  let ?P = "currentPressure (tick e s)"
  have only: "(\<exists>p d t. (PressureLoss p d, t) \<in> set (tick_offers e s)) \<longleftrightarrow>
        machineState s = PRESSING
        \<and> \<bar>pressureDev_of (machineState s) ?P\<bar> > PRESSURE_TOLERANCE
        \<and> ?P < TARGET_PRESSURE * 0.9"
    by (simp only: pressure_alert_iff pressure_offers_iff)
  have high: "pressure_offers (machineState s) ?P = []
        \<and> (\<forall>p d t. (PressureLoss p d, t) \<notin> set (tick_offers e s))
        \<and> pressure_rejects (machineState s) ?P (r_pressureReject (rnd e)) = 0
        \<and> rejectCount (tick e s) =
             rejectCount s
             + temp_rejects (machineState s) (currentTemp (tick e s)) (r_tempReject (rnd e))
             + vibration_rejects (machineState s) (rnd e)"
    if "?P \<ge> TARGET_PRESSURE * 0.9"
  proof -
    from that have nl: "\<not> ?P < TARGET_PRESSURE * 0.9" by simp
    then have "pressure_offers (machineState s) ?P = []"
      using pressure_offers_iff [of "machineState s" ?P] by blast
    moreover have "\<forall>p d t. (PressureLoss p d, t) \<notin> set (tick_offers e s)"
      using only nl by blast
    moreover have r0: "pressure_rejects (machineState s) ?P (r_pressureReject (rnd e)) = 0"
      using nl by (rule pressure_rejects_high)
    moreover have "rejectCount (tick e s) =
             rejectCount s
             + temp_rejects (machineState s) (currentTemp (tick e s)) (r_tempReject (rnd e))
             + vibration_rejects (machineState s) (rnd e)"
      by (simp add: tick_rejectCount r0)
    ultimately show ?thesis by blast
  qed
  from only high show ?thesis by blast
qed

theorem pressure_alert_low_side_only_witness:
  "pressure_offers (machineState state_pressing_high)
     (currentPressure (tick env_mid state_pressing_high)) = []
   \<and> pressure_rejects (machineState state_pressing_high)
       (currentPressure (tick env_mid state_pressing_high)) (r_pressureReject (rnd env_mid)) = 0
   \<and> rejectCount (tick env_mid state_pressing_high) =
       rejectCount state_pressing_high
       + temp_rejects (machineState state_pressing_high)
           (currentTemp (tick env_mid state_pressing_high)) (r_tempReject (rnd env_mid))
       + vibration_rejects (machineState state_pressing_high) (rnd env_mid)"
proof -
  have ph: "machineState state_pressing_high = PRESSING"
    by (simp add: state_pressing_high_def)
  have dev: "\<bar>pressureDev_of (machineState state_pressing_high)
               (currentPressure (tick env_mid state_pressing_high))\<bar> > PRESSURE_TOLERANCE"
    by (simp add: ph pressing_high_pressure pressureDev_of_def constants)
  have hi: "currentPressure (tick env_mid state_pressing_high) \<ge> TARGET_PRESSURE * 0.9"
    by (simp add: pressing_high_pressure constants)
  show ?thesis
    using pressure_alert_low_side_only [of state_pressing_high env_mid] ph dev hi
    by blast
qed

end
